theory Spec2Isabelle
  imports Complex_Main
begin

section \<open>Elimination operators of the TSP genetic algorithm\<close>

text \<open>
  A shallow embedding of \<^verbatim>\<open>src/elimination_operators.py\<close>. Individuals are Python
  objects, so a list holds references to them; the caller's list objects and the state of
  the random generator live in the same store. Every function takes the store and returns
  the store it leaves behind together with either the raised exception or the returned
  list (a fresh list object, represented by its value).
\<close>

subsection \<open>Exceptions, objects and the store\<close>

datatype error =
    AttributeError    \<comment> \<open>an individual without a \<^verbatim>\<open>fitness\<close> attribute\<close>
  | IndexError        \<comment> \<open>\<^verbatim>\<open>combined[0]\<close> on an empty list\<close>
  | NameError         \<comment> \<open>the global \<^verbatim>\<open>fitness_sharing\<close> is not bound\<close>
  | ValueError        \<comment> \<open>\<^verbatim>\<open>np.argmin\<close> of an empty sequence\<close>
  | InvalidArgument   \<comment> \<open>the specification's name for a non-positive tournament size\<close>

type_synonym ref = nat
type_synonym lref = nat

record 'g individual =
  fitness :: "real option"
  genotype :: 'g
  shared_fitness :: "real option"

record 'g store =
  objs :: "ref \<Rightarrow> 'g individual"
  lists :: "lref \<Rightarrow> ref list"
  rng :: "nat \<Rightarrow> nat"

definition fitness_of :: "'g store \<Rightarrow> ref \<Rightarrow> real" where
  "fitness_of s r = the (fitness (objs s r))"

definition has_fitness :: "'g store \<Rightarrow> ref \<Rightarrow> bool" where
  "has_fitness s r = (fitness (objs s r) \<noteq> None)"

subsection \<open>The Python and NumPy primitives the module uses\<close>

text \<open>\<^verbatim>\<open>xs[:n]\<close>: a negative bound counts from the end, and the slice is clipped to the list.\<close>

definition slice_to :: "'a list \<Rightarrow> int \<Rightarrow> 'a list" where
  "slice_to xs n = (if n < 0 then take (length xs - nat (- n)) xs else take (nat n) xs)"

text \<open>
  \<^verbatim>\<open>sorted(xs, key=lambda k: k.fitness, reverse=False)\<close>: the keys are read first (an
  object without the attribute raises), then the list is sorted stably.
\<close>

definition sorted_fitness :: "'g store \<Rightarrow> ref list \<Rightarrow> error + ref list" where
  "sorted_fitness s xs =
     (if list_all (has_fitness s) xs then Inr (sort_key (fitness_of s) xs)
      else Inl AttributeError)"

text \<open>
  \<^verbatim>\<open>np.argmin\<close> flattens its argument and returns the index of the first occurrence of
  the minimum; the one-row nesting \<^verbatim>\<open>[values]\<close> of the source flattens to \<^verbatim>\<open>values\<close>.
\<close>

fun argmin :: "real list \<Rightarrow> nat" where
  "argmin [] = 0"
| "argmin [x] = 0"
| "argmin (x # y # ys) = (let i = argmin (y # ys) in if x \<le> (y # ys) ! i then 0 else Suc i)"

definition np_argmin :: "real list \<Rightarrow> error + nat" where
  "np_argmin xs = (if xs = [] then Inl ValueError else Inr (argmin xs))"

subsection \<open>Collaborators outside the module\<close>

text \<open>
  Modelled from the spec: \<^verbatim>\<open>fitness_utils.calc_shared_fitnesses\<close> is imported by the
  module but its file is not part of the sources. The helper is therefore a parameter of
  \<open>fitness_sharing_elimination\<close> below: a function of the store, the list of candidates, the
  list of survivors and the two shape parameters, which raises or returns a list of values.
  Section 4.1 of the specification gives the penalised fitness of one candidate that is not
  yet a survivor against a survivor set: the raw fitness times one plus the sum, over the
  survivors, of \<open>max 0 (1 - (d / sigma) ^ alpha)\<close>, where \<open>d\<close> is the genotype distance (an
  external function, here the parameter \<open>distance\<close>). The specification does not say what
  the helper returns for a candidate that is already a survivor.
\<close>

type_synonym 'g shared_fitnesses =
  "'g store \<Rightarrow> ref list \<Rightarrow> ref list \<Rightarrow> real \<Rightarrow> real \<Rightarrow> error + real list"

definition shared_value ::
  "('g \<Rightarrow> 'g \<Rightarrow> real) \<Rightarrow> 'g store \<Rightarrow> ref \<Rightarrow> ref list \<Rightarrow> real \<Rightarrow> real \<Rightarrow> real" where
  "shared_value distance s candidate survivors alpha sigma =
     fitness_of s candidate *
       (1 + (\<Sum>r\<leftarrow>survivors.
               max 0 (1 - (distance (genotype (objs s candidate)) (genotype (objs s r)) / sigma)
                            powr alpha)))"

definition sharedFitness ::
  "('g \<Rightarrow> 'g \<Rightarrow> real) \<Rightarrow> 'g store \<Rightarrow> ref \<Rightarrow> ref list \<Rightarrow> real \<Rightarrow> real \<Rightarrow> error + real" where
  "sharedFitness distance s candidate survivors alpha sigma =
     (if has_fitness s candidate then Inr (shared_value distance s candidate survivors alpha sigma)
      else Inl AttributeError)"

text \<open>
  Modelled from the spec: two helpers that return one value per member of the list they
  are given, in order, and the value of section 4.1 for every member that is not a
  survivor. \<open>sharedFitness_each\<close> applies the formula of section 4.1 to the survivors as
  well; \<open>sharedFitness_excluding\<close> gives every survivor a value above the values of all
  members, so that no survivor is a minimum while another member is left.
\<close>

fun sharedFitness_each ::
  "('g \<Rightarrow> 'g \<Rightarrow> real) \<Rightarrow> 'g shared_fitnesses" where
  "sharedFitness_each distance s [] survivors alpha sigma = Inr []"
| "sharedFitness_each distance s (c # cs) survivors alpha sigma =
     (case sharedFitness distance s c survivors alpha sigma of
        Inl e \<Rightarrow> Inl e
      | Inr v \<Rightarrow>
          (case sharedFitness_each distance s cs survivors alpha sigma of
             Inl e \<Rightarrow> Inl e
           | Inr vs \<Rightarrow> Inr (v # vs)))"

definition sharedFitness_excluding ::
  "('g \<Rightarrow> 'g \<Rightarrow> real) \<Rightarrow> 'g shared_fitnesses" where
  "sharedFitness_excluding distance s pool survivors alpha sigma =
     (case sharedFitness_each distance s pool survivors alpha sigma of
        Inl e \<Rightarrow> Inl e
      | Inr vs \<Rightarrow>
          Inr (map (\<lambda>(c, v). if c \<in> set survivors then 1 + (\<Sum>x\<leftarrow>vs. \<bar>x\<bar>) else v)
                 (zip pool vs)))"

text \<open>
  Modelled from the spec: the method \<^verbatim>\<open>calc_shared_fitness\<close> of the individual's class
  is not part of the sources. By section 4.3 it recomputes the penalised fitness of the
  object against the given others and stores it in the object's \<^verbatim>\<open>shared_fitness\<close>.
\<close>

definition calc_shared_fitness ::
  "('g \<Rightarrow> 'g \<Rightarrow> real) \<Rightarrow> 'g store \<Rightarrow> ref \<Rightarrow> ref list \<Rightarrow> real \<Rightarrow> real \<Rightarrow> error + 'g store" where
  "calc_shared_fitness distance s self others alpha sigma =
     (case sharedFitness distance s self others alpha sigma of
        Inl e \<Rightarrow> Inl e
      | Inr v \<Rightarrow> Inr (s\<lparr>objs := (objs s)(self := (objs s self)\<lparr>shared_fitness := Some v\<rparr>)\<rparr>))"

text \<open>
  Modelled from the spec: \<^verbatim>\<open>selection_operators.k_tournament_selection\<close> is imported by
  the module but its file is not part of the sources. By section 4.5 one tournament samples
  \<open>k\<close> individuals with replacement from the pool it is given and returns the one of minimum
  fitness; by section 7 a non-positive \<open>k\<close> is an invalid argument. The random source is
  the stream \<open>rng\<close> of the store: draw \<open>i\<close> picks position \<open>rng s i mod length pool\<close>, and the
  tournament consumes \<open>k\<close> draws. Among sampled individuals of equal fitness the one
  sampled first wins.
\<close>

definition sample_with_replacement :: "'a list \<Rightarrow> nat \<Rightarrow> (nat \<Rightarrow> nat) \<Rightarrow> 'a list" where
  "sample_with_replacement pool k g = map (\<lambda>i. pool ! (g i mod length pool)) [0..<k]"

definition k_tournament_selection ::
  "'g store \<Rightarrow> ref list \<Rightarrow> int \<Rightarrow> (error + ref) \<times> 'g store" where
  "k_tournament_selection s pool k =
     (if k < 1 \<or> pool = [] then (Inl InvalidArgument, s)
      else
        (let selected = sample_with_replacement pool (nat k) (rng s);
             s' = s\<lparr>rng := (\<lambda>i. rng s (i + nat k))\<rparr>
         in if list_all (has_fitness s) selected
            then (Inr (selected ! argmin (map (fitness_of s) selected)), s')
            else (Inl AttributeError, s')))"

subsection \<open>The four elimination strategies\<close>

text \<open>
  The loop of \<^verbatim>\<open>fitness_sharing_elimination\<close>; \<open>n\<close> counts the iterations left. Each
  iteration hands the whole list \<open>combined\<close> and the current \<open>survivors\<close> to the helper
  \<open>calc_shared_fitnesses\<close> and indexes \<open>combined\<close> with the position of the first minimum of
  what the helper returns.
\<close>

fun fitness_sharing_loop ::
  "'g shared_fitnesses \<Rightarrow> 'g store \<Rightarrow> ref list \<Rightarrow> real \<Rightarrow> real \<Rightarrow> nat \<Rightarrow> ref list
     \<Rightarrow> error + ref list" where
  "fitness_sharing_loop calc_shared_fitnesses s combined alpha sigma 0 survivors = Inr survivors"
| "fitness_sharing_loop calc_shared_fitnesses s combined alpha sigma (Suc n) survivors =
     (case calc_shared_fitnesses s combined survivors alpha sigma of
        Inl e \<Rightarrow> Inl e
      | Inr fitnesses \<Rightarrow>
          (case np_argmin fitnesses of
             Inl e \<Rightarrow> Inl e
           | Inr idx \<Rightarrow>
               if idx < length combined
               then fitness_sharing_loop calc_shared_fitnesses s combined alpha sigma n
                      (survivors @ [combined ! idx])
               else Inl IndexError))"

definition fitness_sharing_elimination ::
  "'g shared_fitnesses \<Rightarrow> 'g store \<Rightarrow> lref \<Rightarrow> lref \<Rightarrow> int \<Rightarrow> real \<Rightarrow> real
     \<Rightarrow> (error + ref list) \<times> 'g store" where
  "fitness_sharing_elimination calc_shared_fitnesses s offspring population lambda alpha sigma =
     (case sorted_fitness s (lists s population @ lists s offspring) of
        Inl e \<Rightarrow> (Inl e, s)
      | Inr combined \<Rightarrow>
          (case combined of
             [] \<Rightarrow> (Inl IndexError, s)
           | best # _ \<Rightarrow>
               (fitness_sharing_loop calc_shared_fitnesses s combined alpha sigma (nat lambda)
                  [best], s)))"

text \<open>
  The loop of the fitness-sharing branch of \<^verbatim>\<open>lambda_plus_mu_elimination\<close> over the
  indices \<^verbatim>\<open>range(1, len(combined))\<close>; each call mutates one object of the store.
\<close>

fun shared_fitness_loop ::
  "('g \<Rightarrow> 'g \<Rightarrow> real) \<Rightarrow> 'g store \<Rightarrow> ref list \<Rightarrow> real \<Rightarrow> real \<Rightarrow> nat list
     \<Rightarrow> error option \<times> 'g store" where
  "shared_fitness_loop distance s combined alpha sigma [] = (None, s)"
| "shared_fitness_loop distance s combined alpha sigma (idx # idxs) =
     (case calc_shared_fitness distance s (combined ! idx)
             (take idx combined @ drop (idx + 1) combined) alpha sigma of
        Inl e \<Rightarrow> (Some e, s)
      | Inr s' \<Rightarrow> shared_fitness_loop distance s' combined alpha sigma idxs)"

text \<open>
  The module reads the global \<^verbatim>\<open>fitness_sharing\<close> but never binds it; the parameter
  \<open>fitness_sharing\<close> is the binding the module's namespace holds when the function runs,
  \<open>None\<close> when there is none.
\<close>

definition lambda_plus_mu_elimination ::
  "('g \<Rightarrow> 'g \<Rightarrow> real) \<Rightarrow> bool option \<Rightarrow> 'g store \<Rightarrow> lref \<Rightarrow> lref \<Rightarrow> int \<Rightarrow> real \<Rightarrow> real
     \<Rightarrow> (error + ref list) \<times> 'g store" where
  "lambda_plus_mu_elimination distance fitness_sharing s offspring population lambda alpha sigma =
     (case sorted_fitness s (lists s population @ lists s offspring) of
        Inl e \<Rightarrow> (Inl e, s)
      | Inr sorted_all \<Rightarrow>
          (let combined = slice_to sorted_all lambda in
           case fitness_sharing of
             None \<Rightarrow> (Inl NameError, s)
           | Some flag \<Rightarrow>
               if flag
               then (case shared_fitness_loop distance s combined alpha sigma
                            [1..<length combined] of
                       (Some e, s') \<Rightarrow> (Inl e, s')
                     | (None, s') \<Rightarrow> (Inr combined, s'))
               else (Inr combined, s)))"

definition replace_worst ::
  "'g store \<Rightarrow> lref \<Rightarrow> lref \<Rightarrow> int \<Rightarrow> (error + ref list) \<times> 'g store" where
  "replace_worst s offspring population lambda =
     (let combined = slice_to (lists s population) (- int (length (lists s offspring)))
                       @ lists s offspring
      in case sorted_fitness s combined of
           Inl e \<Rightarrow> (Inl e, s)
         | Inr new_combined \<Rightarrow> (Inr (slice_to new_combined lambda), s))"

text \<open>
  The comprehension \<^verbatim>\<open>[k_tournament_selection(combined, k) for _ in range(lambda_-1)]\<close>;
  \<open>n\<close> counts the tournaments left, and each one advances the random source.
\<close>

fun tournaments ::
  "'g store \<Rightarrow> ref list \<Rightarrow> int \<Rightarrow> nat \<Rightarrow> (error + ref list) \<times> 'g store" where
  "tournaments s combined k 0 = (Inr [], s)"
| "tournaments s combined k (Suc n) =
     (case k_tournament_selection s combined k of
        (Inl e, s') \<Rightarrow> (Inl e, s')
      | (Inr winner, s') \<Rightarrow>
          (case tournaments s' combined k n of
             (Inl e, s'') \<Rightarrow> (Inl e, s'')
           | (Inr winners, s'') \<Rightarrow> (Inr (winner # winners), s'')))"

definition k_tournament_elimination ::
  "'g store \<Rightarrow> lref \<Rightarrow> lref \<Rightarrow> int \<Rightarrow> int \<Rightarrow> (error + ref list) \<times> 'g store" where
  "k_tournament_elimination s offspring population lambda k =
     (case sorted_fitness s (lists s population @ lists s offspring) of
        Inl e \<Rightarrow> (Inl e, s)
      | Inr combined \<Rightarrow>
          (case combined of
             [] \<Rightarrow> (Inl IndexError, s)
           | best # _ \<Rightarrow>
               (case tournaments s combined k (nat (lambda - 1)) of
                  (Inl e, s') \<Rightarrow> (Inl e, s')
                | (Inr winners, s') \<Rightarrow> (Inr (best # winners), s'))))"

subsection \<open>Section 4.2 of the specification, as worded\<close>



subsection \<open>The selection rule, as a predicate\<close>


subsection \<open>Concrete stores\<close>

text \<open>
  Object \<open>r\<close> has the \<open>r\<close>-th fitness of the list \<open>fs\<close> and genotype \<open>r\<close>; list object 0 is
  \<open>offspring\<close> and list object 1 is \<open>population\<close>. The random source always draws \<open>d\<close>.
\<close>

definition mk_store :: "real list \<Rightarrow> ref list \<Rightarrow> ref list \<Rightarrow> nat \<Rightarrow> nat store" where
  "mk_store fs offspring population d =
     \<lparr>objs = (\<lambda>r. \<lparr>fitness = (if r < length fs then Some (fs ! r) else None),
                   genotype = r, shared_fitness = None\<rparr>),
      lists = (\<lambda>l. if l = 0 then offspring else if l = 1 then population else []),
      rng = (\<lambda>i. d)\<rparr>"

text \<open>A genotype distance for the examples: 0 between equal genotypes, 5 otherwise.\<close>

definition far_apart :: "nat \<Rightarrow> nat \<Rightarrow> real" where
  "far_apart a b = (if a = b then 0 else 5)"

section \<open>Properties\<close>

subsection \<open>Slices and sorting\<close>

lemma slice_to_zero: "slice_to xs 0 = []"
  by (simp add: slice_to_def)

lemma slice_to_neg_length: "length xs \<le> n \<Longrightarrow> slice_to xs (- int n) = []"
  by (simp add: slice_to_def)

lemma slice_to_neg: "0 < n \<Longrightarrow> slice_to xs (- int n) = take (length xs - n) xs"
  by (simp add: slice_to_def)

lemma length_slice_to:
  "0 \<le> n \<Longrightarrow> n \<le> int (length xs) \<Longrightarrow> int (length (slice_to xs n)) = n"
  by (simp add: slice_to_def)

lemma set_slice_to: "set (slice_to xs n) \<subseteq> set xs"
  by (auto simp: slice_to_def dest: in_set_takeD)

lemma sorted_slice_to: "sorted (map f xs) \<Longrightarrow> sorted (map f (slice_to xs n))"
  by (simp add: slice_to_def take_map [symmetric])

lemma sorted_fitness_Inr:
  "list_all (has_fitness s) xs \<Longrightarrow> sorted_fitness s xs = Inr (sort_key (fitness_of s) xs)"
  by (simp add: sorted_fitness_def)

lemma sorted_fitness_Nil: "sorted_fitness s [] = Inr []"
  by (simp add: sorted_fitness_def)

lemma has_fitness_mk_store: "has_fitness (mk_store fs off pop d) r \<longleftrightarrow> r < length fs"
  by (simp add: has_fitness_def mk_store_def)

lemma fitness_of_mk_store: "r < length fs \<Longrightarrow> fitness_of (mk_store fs off pop d) r = fs ! r"
  by (simp add: fitness_of_def mk_store_def)

lemma lists_mk_store:
  "lists (mk_store fs off pop d) 0 = off" "lists (mk_store fs off pop d) (Suc 0) = pop"
  by (simp_all add: mk_store_def)

subsection \<open>Replace-worst\<close>

text \<open>
  C10. When \<open>offspring\<close> is the empty list, \<open>replace_worst\<close> returns the empty list for every
  population and every \<open>lambda\<close>: the slice \<^verbatim>\<open>population[:-0]\<close> is \<^verbatim>\<open>population[:0]\<close> and
  discards the entire population, so nothing is left to sort.
\<close>

theorem replace_worst_empty_offspring:
  "lists s offspring = [] \<Longrightarrow> replace_worst s offspring population lambda = (Inr [], s)"
  by (simp add: replace_worst_def slice_to_zero sorted_fitness_Nil slice_to_def)

theorem replace_worst_empty_offspring_witness:
  "lists (mk_store [5, 3, 8] [] [0, 1, 2] 0) 0 = []
     \<and> lists (mk_store [5, 3, 8] [] [0, 1, 2] 0) 1 = [0, 1, 2]
     \<and> fst (replace_worst (mk_store [5, 3, 8] [] [0, 1, 2] 0) 0 1 2) = Inr []"
  using replace_worst_empty_offspring [of "mk_store [5, 3, 8] [] [0, 1, 2] 0" 0 1 2]
  by (simp add: lists_mk_store)

text \<open>
  C3 (as amended). With more offspring than population members \<open>replace_worst\<close> raises
  nothing: the slice \<^verbatim>\<open>population[:-len(offspring)]\<close> is empty, and the result is the first
  \<open>lambda\<close> offspring in ascending fitness order.
\<close>

theorem replace_worst_longer_offspring:
  assumes "length (lists s population) < length (lists s offspring)"
    and "list_all (has_fitness s) (lists s offspring)"
  shows "replace_worst s offspring population lambda =
           (Inr (slice_to (sort_key (fitness_of s) (lists s offspring)) lambda), s)"
  using assms by (simp add: replace_worst_def slice_to_neg_length sorted_fitness_Inr)

theorem replace_worst_longer_offspring_witness:
  "length (lists (mk_store [5, 9, 1] [1, 2] [0] 0) 1) < length (lists (mk_store [5, 9, 1] [1, 2] [0] 0) 0)
     \<and> fst (replace_worst (mk_store [5, 9, 1] [1, 2] [0] 0) 0 1 2) = Inr [2, 1]"
  using replace_worst_longer_offspring [of "mk_store [5, 9, 1] [1, 2] [0] 0" 1 0 2]
  by (simp add: lists_mk_store has_fitness_mk_store fitness_of_mk_store slice_to_def)

text \<open>
  The claim as stated fails: population of one, two offspring, and the call returns a list
  instead of raising \<open>InvalidArgument\<close>.
\<close>

theorem replace_worst_longer_offspring_counterexample:
  "length (lists (mk_store [5, 1, 9] [1, 2] [0] 0) 1) < length (lists (mk_store [5, 1, 9] [1, 2] [0] 0) 0)
     \<and> fst (replace_worst (mk_store [5, 1, 9] [1, 2] [0] 0) 0 1 2) = Inr [1, 2]
     \<and> fst (replace_worst (mk_store [5, 1, 9] [1, 2] [0] 0) 0 1 2) \<noteq> Inl InvalidArgument"
  by (simp add: replace_worst_def lists_mk_store sorted_fitness_def has_fitness_mk_store
      fitness_of_mk_store slice_to_def Let_def)

text \<open>
  C2 (as amended). For a population with fitnesses 5, 3, 8 in that order, offspring with
  fitnesses 1, 9 and \<open>lambda = 2\<close>, \<open>replace_worst\<close> drops the last two population members
  (as many as there are offspring), sorts what is left with the offspring, and returns the
  first offspring and the first population member: fitnesses 1, 5.
\<close>

theorem replace_worst_example:
  assumes "lists s population = [a, b, c]" and "lists s offspring = [x, y]"
    and "fitness (objs s a) = Some 5" and "fitness (objs s b) = Some 3"
    and "fitness (objs s c) = Some 8" and "fitness (objs s x) = Some 1"
    and "fitness (objs s y) = Some 9"
  shows "replace_worst s offspring population 2 = (Inr [x, a], s)
           \<and> map (fitness_of s) [x, a] = [1, 5]"
  using assms
  by (simp add: replace_worst_def slice_to_def sorted_fitness_def has_fitness_def fitness_of_def)

theorem replace_worst_example_witness:
  "fst (replace_worst (mk_store [5, 3, 8, 1, 9] [3, 4] [0, 1, 2] 0) 0 1 2) = Inr [3, 0]
     \<and> map (fitness_of (mk_store [5, 3, 8, 1, 9] [3, 4] [0, 1, 2] 0)) [3, 0] = [1, 5]"
  using replace_worst_example [of "mk_store [5, 3, 8, 1, 9] [3, 4] [0, 1, 2] 0" 1 0 1 2 0 3 4]
  by (simp add: mk_store_def)

text \<open>The claimed result, fitnesses 1 and 3, is not what the call returns.\<close>

theorem replace_worst_example_counterexample:
  "map_sum id (map (fitness_of (mk_store [5, 3, 8, 1, 9] [3, 4] [0, 1, 2] 0)))
      (fst (replace_worst (mk_store [5, 3, 8, 1, 9] [3, 4] [0, 1, 2] 0) 0 1 2)) \<noteq> Inr [1, 3]"
  by (simp add: replace_worst_def lists_mk_store sorted_fitness_def has_fitness_mk_store
      fitness_of_mk_store slice_to_def Let_def)

subsection \<open>The lambda-plus-mu strategy\<close>

lemma calc_shared_fitness_frame:
  assumes "calc_shared_fitness distance s r others alpha sigma = Inr s'"
  shows "lists s' = lists s" and "rng s' = rng s"
    and "fitness (objs s' x) = fitness (objs s x)"
    and "genotype (objs s' x) = genotype (objs s x)"
  using assms by (auto simp: calc_shared_fitness_def split: sum.splits)

lemma shared_fitness_loop_frame:
  "shared_fitness_loop distance s combined alpha sigma idxs = (e, s') \<Longrightarrow>
     lists s' = lists s \<and> rng s' = rng s \<and>
     (\<forall>x. fitness (objs s' x) = fitness (objs s x) \<and> genotype (objs s' x) = genotype (objs s x))"
proof (induction idxs arbitrary: s)
  case Nil
  then show ?case by simp
next
  case (Cons idx idxs)
  show ?case
  proof (cases "calc_shared_fitness distance s (combined ! idx)
                  (take idx combined @ drop (idx + 1) combined) alpha sigma")
    case (Inl err)
    with Cons.prems show ?thesis by simp
  next
    case (Inr s1)
    with Cons.prems have "shared_fitness_loop distance s1 combined alpha sigma idxs = (e, s')"
      by simp
    from Cons.IH [OF this] calc_shared_fitness_frame [OF Inr] show ?thesis by simp
  qed
qed

lemma has_fitness_cong:
  "(\<And>x. fitness (objs s' x) = fitness (objs s x)) \<Longrightarrow> has_fitness s' = has_fitness s"
  by (simp add: has_fitness_def fun_eq_iff)

lemma fitness_of_cong:
  "(\<And>x. fitness (objs s' x) = fitness (objs s x)) \<Longrightarrow> fitness_of s' = fitness_of s"
  by (simp add: fitness_of_def fun_eq_iff)

lemma shared_fitness_loop_no_error:
  "list_all (has_fitness s) combined \<Longrightarrow> list_all (\<lambda>i. i < length combined) idxs \<Longrightarrow>
     fst (shared_fitness_loop distance s combined alpha sigma idxs) = None"
proof (induction idxs arbitrary: s)
  case Nil
  then show ?case by simp
next
  case (Cons idx idxs)
  then have idx: "idx < length combined" by simp
  with Cons.prems(1) have "has_fitness s (combined ! idx)"
    by (simp add: list_all_length)
  then obtain s1 where s1: "calc_shared_fitness distance s (combined ! idx)
      (take idx combined @ drop (idx + 1) combined) alpha sigma = Inr s1"
    by (simp add: calc_shared_fitness_def sharedFitness_def)
  have "has_fitness s1 = has_fitness s"
    using calc_shared_fitness_frame(3) [OF s1] by (rule has_fitness_cong)
  with Cons.prems have "list_all (has_fitness s1) combined" by simp
  from Cons.IH [OF this] Cons.prems(2) s1 show ?case by simp
qed

lemma list_all_slice_to: "list_all P xs \<Longrightarrow> list_all P (slice_to xs n)"
  using set_slice_to [of xs n] by (auto simp: list_all_iff)

lemma lambda_plus_mu_ok:
  assumes fit: "list_all (has_fitness s) (lists s population @ lists s offspring)"
  shows "\<exists>s'. lambda_plus_mu_elimination distance (Some flag) s offspring population lambda alpha sigma =
           (Inr (slice_to (sort_key (fitness_of s) (lists s population @ lists s offspring)) lambda), s')
         \<and> fitness_of s' = fitness_of s"
proof (cases flag)
  case False
  with fit show ?thesis
    by (simp add: lambda_plus_mu_elimination_def sorted_fitness_Inr del: list_all_append)
next
  case True
  let ?all = "sort_key (fitness_of s) (lists s population @ lists s offspring)"
  let ?c = "slice_to ?all lambda"
  obtain e s' where loop: "shared_fitness_loop distance s ?c alpha sigma [1..<length ?c] = (e, s')"
    by (cases "shared_fitness_loop distance s ?c alpha sigma [1..<length ?c]")
  have "list_all (has_fitness s) ?all"
    using fit by (simp add: list_all_iff)
  then have "list_all (has_fitness s) ?c" by (rule list_all_slice_to)
  moreover have "list_all (\<lambda>i. i < length ?c) [1..<length ?c]"
    by (simp add: list_all_iff)
  ultimately have "fst (shared_fitness_loop distance s ?c alpha sigma [1..<length ?c]) = None"
    by (rule shared_fitness_loop_no_error)
  with loop have e: "e = None" by simp
  from shared_fitness_loop_frame [OF loop] have "fitness_of s' = fitness_of s"
    by (intro fitness_of_cong) simp
  with True fit loop e show ?thesis
    by (simp add: lambda_plus_mu_elimination_def sorted_fitness_Inr Let_def del: list_all_append)
qed

lemma replace_worst_ok:
  assumes fit: "list_all (has_fitness s) (lists s population @ lists s offspring)"
  shows "replace_worst s offspring population lambda =
           (Inr (slice_to (sort_key (fitness_of s)
                   (slice_to (lists s population) (- int (length (lists s offspring)))
                      @ lists s offspring)) lambda), s)"
proof -
  have "list_all (has_fitness s) (slice_to (lists s population) (- int (length (lists s offspring))))"
    using fit by (intro list_all_slice_to) simp
  with fit show ?thesis
    by (simp add: replace_worst_def sorted_fitness_Inr)
qed

text \<open>
  C4 (as amended). Let \<open>lambda\<close> be positive and every individual of the pool have a fitness.
  When the global \<open>fitness_sharing\<close> is bound and \<open>lambda\<close> does not exceed the size of the
  combined pool, \<open>lambda_plus_mu_elimination\<close> returns exactly \<open>lambda\<close> individuals, sorted
  ascending by fitness, all of them members of \<open>population\<close> or \<open>offspring\<close>. When
  \<open>offspring\<close> is not empty and not longer than \<open>population\<close>, and \<open>lambda\<close> does not exceed
  the size of \<open>population\<close>, \<open>replace_worst\<close> does the same.
\<close>

theorem plain_eliminations_sorted_members:
  assumes "0 < lambda"
    and "list_all (has_fitness s) (lists s population @ lists s offspring)"
  shows "(lambda \<le> int (length (lists s population @ lists s offspring)) \<longrightarrow>
           (\<exists>res s'. lambda_plus_mu_elimination distance (Some flag) s offspring population
                        lambda alpha sigma = (Inr res, s')
              \<and> int (length res) = lambda \<and> sorted (map (fitness_of s') res)
              \<and> set res \<subseteq> set (lists s population) \<union> set (lists s offspring)))
       \<and> (lists s offspring \<noteq> [] \<and> length (lists s offspring) \<le> length (lists s population)
            \<and> lambda \<le> int (length (lists s population)) \<longrightarrow>
           (\<exists>res. replace_worst s offspring population lambda = (Inr res, s)
              \<and> int (length res) = lambda \<and> sorted (map (fitness_of s) res)
              \<and> set res \<subseteq> set (lists s population) \<union> set (lists s offspring)))"
proof (intro conjI impI)
  let ?pool = "lists s population @ lists s offspring"
  assume le: "lambda \<le> int (length ?pool)"
  let ?res = "slice_to (sort_key (fitness_of s) ?pool) lambda"
  from lambda_plus_mu_ok [OF assms(2)] obtain s' where
    run: "lambda_plus_mu_elimination distance (Some flag) s offspring population lambda alpha sigma
            = (Inr ?res, s')" and same: "fitness_of s' = fitness_of s"
    by blast
  have "int (length ?res) = lambda"
    using assms(1) le by (intro length_slice_to) simp_all
  moreover have "sorted (map (fitness_of s') ?res)"
    unfolding same by (intro sorted_slice_to) simp
  moreover have "set ?res \<subseteq> set (lists s population) \<union> set (lists s offspring)"
    using set_slice_to [of "sort_key (fitness_of s) ?pool" lambda] by simp
  ultimately show "\<exists>res s'. lambda_plus_mu_elimination distance (Some flag) s offspring population
                        lambda alpha sigma = (Inr res, s')
              \<and> int (length res) = lambda \<and> sorted (map (fitness_of s') res)
              \<and> set res \<subseteq> set (lists s population) \<union> set (lists s offspring)"
    using run by blast
next
  let ?off = "lists s offspring" and ?pop = "lists s population"
  assume a: "?off \<noteq> [] \<and> length ?off \<le> length ?pop \<and> lambda \<le> int (length ?pop)"
  let ?kept = "slice_to ?pop (- int (length ?off))"
  let ?res = "slice_to (sort_key (fitness_of s) (?kept @ ?off)) lambda"
  have kept: "?kept = take (length ?pop - length ?off) ?pop"
    using a by (intro slice_to_neg) simp
  have len: "length (?kept @ ?off) = length ?pop"
    using a by (simp add: kept)
  have "int (length ?res) = lambda"
    using assms(1) a len by (intro length_slice_to) simp_all
  moreover have "sorted (map (fitness_of s) ?res)"
    by (intro sorted_slice_to) simp
  moreover have "set ?res \<subseteq> set ?pop \<union> set ?off"
    using set_slice_to [of "sort_key (fitness_of s) (?kept @ ?off)" lambda]
      set_slice_to [of ?pop "- int (length ?off)"] by auto
  ultimately show "\<exists>res. replace_worst s offspring population lambda = (Inr res, s)
              \<and> int (length res) = lambda \<and> sorted (map (fitness_of s) res)
              \<and> set res \<subseteq> set (lists s population) \<union> set (lists s offspring)"
    using replace_worst_ok [OF assms(2)] by blast
qed

theorem plain_eliminations_sorted_members_witness:
  "(\<exists>res s'. lambda_plus_mu_elimination far_apart (Some True)
        (mk_store [5, 3, 8, 1, 9] [3, 4] [0, 1, 2] 0) 0 1 2 1 1 = (Inr res, s')
      \<and> int (length res) = 2 \<and> sorted (map (fitness_of s') res)
      \<and> set res \<subseteq> {0, 1, 2} \<union> {3, 4})
   \<and> (\<exists>res. replace_worst (mk_store [5, 3, 8, 1, 9] [3, 4] [0, 1, 2] 0) 0 1 2
        = (Inr res, mk_store [5, 3, 8, 1, 9] [3, 4] [0, 1, 2] 0)
      \<and> int (length res) = 2
      \<and> sorted (map (fitness_of (mk_store [5, 3, 8, 1, 9] [3, 4] [0, 1, 2] 0)) res)
      \<and> set res \<subseteq> {0, 1, 2} \<union> {3, 4})"
  using plain_eliminations_sorted_members [where lambda = 2
      and s = "mk_store [5, 3, 8, 1, 9] [3, 4] [0, 1, 2] 0" and population = 1 and offspring = 0
      and distance = far_apart and flag = True and alpha = 1 and sigma = 1]
  by (simp add: has_fitness_mk_store lists_mk_store)

text \<open>
  The claim as stated fails for \<open>replace_worst\<close>: with two population members, one
  offspring and \<open>lambda = 3\<close>, positive and equal to the size of the combined pool, the call
  returns only two individuals, because one population member was dropped first.
\<close>

theorem replace_worst_length_counterexample:
  "(0 :: int) < 3
     \<and> (3 :: int) \<le> int (length (lists (mk_store [3, 5, 1] [2] [0, 1] 0) 1
                                   @ lists (mk_store [3, 5, 1] [2] [0, 1] 0) 0))
     \<and> list_all (has_fitness (mk_store [3, 5, 1] [2] [0, 1] 0))
          (lists (mk_store [3, 5, 1] [2] [0, 1] 0) 1 @ lists (mk_store [3, 5, 1] [2] [0, 1] 0) 0)
     \<and> fst (replace_worst (mk_store [3, 5, 1] [2] [0, 1] 0) 0 1 3) = Inr [2, 0]"
  by (simp add: replace_worst_def lists_mk_store sorted_fitness_def has_fitness_mk_store
      fitness_of_mk_store slice_to_def Let_def)

text \<open>
  C6. The fitness-sharing branch of \<open>lambda_plus_mu_elimination\<close> reads a global that the
  module does not bind. When it is unbound the call never returns a list: once the pool is
  sorted (every individual has a fitness) the lookup raises \<open>NameError\<close> to the caller and
  the store is left as it was; the only other outcome is the \<open>AttributeError\<close> of the sort.
\<close>

theorem lambda_plus_mu_missing_flag:
  "(\<forall>res. fst (lambda_plus_mu_elimination distance None s offspring population lambda alpha sigma)
            \<noteq> Inr res)
   \<and> (list_all (has_fitness s) (lists s population @ lists s offspring) \<longrightarrow>
        lambda_plus_mu_elimination distance None s offspring population lambda alpha sigma
          = (Inl NameError, s))"
  by (simp add: lambda_plus_mu_elimination_def sorted_fitness_def Let_def del: list_all_append)

theorem lambda_plus_mu_missing_flag_witness:
  "list_all (has_fitness (mk_store [5, 3, 8, 1, 9] [3, 4] [0, 1, 2] 0))
      (lists (mk_store [5, 3, 8, 1, 9] [3, 4] [0, 1, 2] 0) 1
         @ lists (mk_store [5, 3, 8, 1, 9] [3, 4] [0, 1, 2] 0) 0)
   \<and> lambda_plus_mu_elimination far_apart None (mk_store [5, 3, 8, 1, 9] [3, 4] [0, 1, 2] 0) 0 1 2 1 1
       = (Inl NameError, mk_store [5, 3, 8, 1, 9] [3, 4] [0, 1, 2] 0)"
  using lambda_plus_mu_missing_flag [where distance = far_apart
      and s = "mk_store [5, 3, 8, 1, 9] [3, 4] [0, 1, 2] 0" and population = 1 and offspring = 0
      and lambda = 2 and alpha = 1 and sigma = 1]
  by (simp add: has_fitness_mk_store lists_mk_store)

subsection \<open>Fitness-sharing elimination\<close>

lemma argmin_less: "xs \<noteq> [] \<Longrightarrow> argmin xs < length xs"
  by (induction xs rule: argmin.induct) (auto simp: Let_def)

lemma argmin_le: "i < length xs \<Longrightarrow> xs ! argmin xs \<le> xs ! i"
proof (induction xs arbitrary: i rule: argmin.induct)
  case 1
  then show ?case by simp
next
  case (2 x)
  then show ?case by simp
next
  case (3 x y ys)
  show ?case
  proof (cases i)
    case 0
    then show ?thesis by (auto simp: Let_def)
  next
    case (Suc j)
    with "3.prems" have "j < length (y # ys)" by simp
    from "3.IH" [OF this] Suc show ?thesis
      by (auto simp: Let_def)
  qed
qed


text \<open>The two helpers return one value per member when every member has a fitness.\<close>

lemma sharedFitness_each_Inr:
  "list_all (has_fitness s) pool \<Longrightarrow>
     sharedFitness_each distance s pool survivors alpha sigma =
       Inr (map (\<lambda>c. shared_value distance s c survivors alpha sigma) pool)"
  by (induction pool) (simp_all add: sharedFitness_def)

lemma sharedFitness_excluding_Inr:
  assumes "list_all (has_fitness s) pool"
  shows "sharedFitness_excluding distance s pool survivors alpha sigma =
           Inr (map (\<lambda>c. if c \<in> set survivors
                          then 1 + (\<Sum>x\<leftarrow>pool. \<bar>shared_value distance s x survivors alpha sigma\<bar>)
                          else shared_value distance s c survivors alpha sigma) pool)"
  by (simp add: sharedFitness_excluding_def sharedFitness_each_Inr [OF assms] zip_map2
      zip_same_conv_map o_def)


lemma sharedFitness_excluding_aligned:
  assumes "list_all (has_fitness s) pool"
  shows "\<exists>fitnesses. sharedFitness_excluding distance s pool survivors alpha sigma = Inr fitnesses
           \<and> length fitnesses = length pool"
  by (simp add: sharedFitness_excluding_Inr [OF assms])



text \<open>
  The loop, for a helper that returns at least one value and no more values than the pool
  has members: the position of the first minimum is then a position of the pool.
\<close>

lemma fitness_sharing_loop_step:
  assumes "h s combined survivors alpha sigma = Inr fitnesses"
    and "fitnesses \<noteq> []" and "length fitnesses \<le> length combined"
  shows "fitness_sharing_loop h s combined alpha sigma (Suc n) survivors =
           fitness_sharing_loop h s combined alpha sigma n
             (survivors @ [combined ! argmin fitnesses])"
  using argmin_less [of fitnesses] assms by (simp add: np_argmin_def)

lemma fitness_sharing_loop_char:
  assumes returns: "\<And>survivors. \<exists>fitnesses. h s combined survivors alpha sigma = Inr fitnesses
                     \<and> fitnesses \<noteq> [] \<and> length fitnesses \<le> length combined"
  shows "\<exists>res. fitness_sharing_loop h s combined alpha sigma n survivors = Inr res
           \<and> length res = length survivors + n
           \<and> take (length survivors) res = survivors
           \<and> (\<forall>j<n. \<exists>fitnesses.
                 h s combined (take (length survivors + j) res) alpha sigma = Inr fitnesses
                 \<and> res ! (length survivors + j) = combined ! argmin fitnesses)"
proof (induction n arbitrary: survivors)
  case 0
  show ?case by simp
next
  case (Suc n)
  from returns [of survivors] obtain vs where
    vs: "h s combined survivors alpha sigma = Inr vs" "vs \<noteq> []" "length vs \<le> length combined"
    by blast
  let ?x = "combined ! argmin vs"
  from Suc.IH [of "survivors @ [?x]"] obtain res where
    run: "fitness_sharing_loop h s combined alpha sigma n (survivors @ [?x]) = Inr res"
    and len: "length res = Suc (length survivors) + n"
    and pre: "take (Suc (length survivors)) res = survivors @ [?x]"
    and rest: "\<forall>j<n. \<exists>fitnesses.
                 h s combined (take (Suc (length survivors) + j) res) alpha sigma = Inr fitnesses
                 \<and> res ! (Suc (length survivors) + j) = combined ! argmin fitnesses"
    by auto
  have pre': "take (length survivors) res = survivors"
  proof -
    have "take (length survivors) res = take (length survivors) (take (Suc (length survivors)) res)"
      by (simp add: min_def)
    also have "\<dots> = survivors" by (simp add: pre)
    finally show ?thesis .
  qed
  have at: "res ! length survivors = ?x"
  proof -
    have "res ! length survivors = take (Suc (length survivors)) res ! length survivors"
      by simp
    also have "\<dots> = ?x" by (simp add: pre)
    finally show ?thesis .
  qed
  have "\<forall>j<Suc n. \<exists>fitnesses.
          h s combined (take (length survivors + j) res) alpha sigma = Inr fitnesses
          \<and> res ! (length survivors + j) = combined ! argmin fitnesses"
  proof (intro allI impI)
    fix j assume j: "j < Suc n"
    show "\<exists>fitnesses.
          h s combined (take (length survivors + j) res) alpha sigma = Inr fitnesses
          \<and> res ! (length survivors + j) = combined ! argmin fitnesses"
    proof (cases j)
      case 0
      with at pre' vs show ?thesis by simp
    next
      case (Suc j')
      with j rest show ?thesis by simp
    qed
  qed
  with run len pre' show ?case
    unfolding fitness_sharing_loop_step [where h = h and s = s and combined = combined
        and survivors = survivors and alpha = alpha and sigma = sigma, OF vs]
    by (intro exI [of _ res]) simp
qed

lemma fitness_sharing_loop_members:
  "fitness_sharing_loop h s combined alpha sigma n survivors = Inr res \<Longrightarrow>
     set res \<subseteq> set survivors \<union> set combined"
proof (induction n arbitrary: survivors)
  case 0
  then show ?case by auto
next
  case (Suc n)
  from Suc.prems obtain idx where idx: "idx < length combined"
    and run: "fitness_sharing_loop h s combined alpha sigma n (survivors @ [combined ! idx])
                = Inr res"
    by (auto split: sum.splits if_splits)
  from Suc.IH [OF run] idx show ?case by auto
qed

lemma fitness_sharing_elimination_run:
  assumes "lists s population @ lists s offspring \<noteq> []"
    and "list_all (has_fitness s) (lists s population @ lists s offspring)"
  shows "fitness_sharing_elimination h s offspring population lambda alpha sigma =
           (fitness_sharing_loop h s
              (sort_key (fitness_of s) (lists s population @ lists s offspring)) alpha sigma
              (nat lambda)
              [sort_key (fitness_of s) (lists s population @ lists s offspring) ! 0], s)"
proof -
  let ?c = "sort_key (fitness_of s) (lists s population @ lists s offspring)"
  have "length ?c \<noteq> 0" using assms(1) by simp
  then obtain best rest where c: "?c = best # rest"
    by (cases ?c) simp_all
  with assms(2) show ?thesis
    by (simp add: fitness_sharing_elimination_def sorted_fitness_Inr del: list_all_append)
qed

lemma sort_key_first_min:
  assumes "xs \<noteq> []" and "x \<in> set xs"
  shows "sort_key f xs ! 0 \<in> set xs \<and> f (sort_key f xs ! 0) \<le> f x"
proof -
  have "sort_key f xs \<noteq> []"
    using assms(1) by (metis length_0_conv length_sort)
  then obtain b rest where c: "sort_key f xs = b # rest"
    by (cases "sort_key f xs") simp_all
  have "sorted (map f (b # rest))"
    using sorted_sort_key [of f xs] c by simp
  moreover have "x \<in> set (b # rest)" "b \<in> set xs"
    using assms(2) set_sort [of f xs] c by auto
  ultimately show ?thesis using c by auto
qed

text \<open>
  C5. For a non-empty combined pool whose individuals all have a fitness, a retention
  count \<open>lambda \<ge> 0\<close> and a helper that returns, for the sorted pool \<open>combined\<close>, at
  least one value and no more values than the pool has members,
  \<open>fitness_sharing_elimination\<close> returns the seeded best candidate \<open>combined ! 0\<close> (a pool
  member of globally minimal fitness) followed by exactly \<open>lambda\<close> appended pool members,
  a list of exactly \<open>lambda + 1\<close> survivors, and leaves the store as it was.
\<close>

theorem fitness_sharing_elimination_length:
  assumes "0 \<le> lambda"
    and "lists s population @ lists s offspring \<noteq> []"
    and "list_all (has_fitness s) (lists s population @ lists s offspring)"
    and "combined = sort_key (fitness_of s) (lists s population @ lists s offspring)"
    and "\<And>survivors. \<exists>fitnesses.
           calc_shared_fitnesses s combined survivors alpha sigma = Inr fitnesses
           \<and> fitnesses \<noteq> [] \<and> length fitnesses \<le> length combined"
  shows "\<exists>appended.
           fitness_sharing_elimination calc_shared_fitnesses s offspring population lambda
               alpha sigma = (Inr (combined ! 0 # appended), s)
           \<and> int (length (combined ! 0 # appended)) = lambda + 1
           \<and> int (length appended) = lambda
           \<and> combined ! 0 \<in> set (lists s population) \<union> set (lists s offspring)
           \<and> (\<forall>r \<in> set (lists s population) \<union> set (lists s offspring).
                 fitness_of s (combined ! 0) \<le> fitness_of s r)
           \<and> set appended \<subseteq> set (lists s population) \<union> set (lists s offspring)"
proof -
  let ?pool = "lists s population @ lists s offspring"
  have ne: "combined \<noteq> []"
    using assms(2,4) by (metis length_0_conv length_sort)
  have setc: "set combined = set ?pool"
    using assms(4) by simp
  from fitness_sharing_loop_char [of calc_shared_fitnesses s combined alpha sigma
      "nat lambda" "[combined ! 0]", OF assms(5)]
  obtain res where
    run: "fitness_sharing_loop calc_shared_fitnesses s combined alpha sigma (nat lambda)
            [combined ! 0] = Inr res"
    and len: "length res = 1 + nat lambda"
    and pre: "take 1 res = [combined ! 0]"
    by auto
  from len obtain x appended where res: "res = x # appended"
    by (cases res) simp_all
  with pre have x: "x = combined ! 0" by simp
  from fitness_sharing_loop_members [OF run] ne res have sub: "set appended \<subseteq> set combined"
    by auto
  have best: "combined ! 0 \<in> set ?pool"
    using ne setc nth_mem [of 0 combined] by auto
  have min: "fitness_of s (combined ! 0) \<le> fitness_of s r" if "r \<in> set ?pool" for r
    using sort_key_first_min [OF assms(2) that, of "fitness_of s"] assms(4) by simp
  have "fitness_sharing_elimination calc_shared_fitnesses s offspring population lambda
          alpha sigma = (Inr (combined ! 0 # appended), s)"
    using fitness_sharing_elimination_run [OF assms(2,3)] run res x assms(4) by simp
  moreover have "int (length appended) = lambda"
    using len res assms(1) by simp
  ultimately show ?thesis
    using sub setc best min by (intro exI [of _ appended]) auto
qed

theorem fitness_sharing_elimination_length_witness:
  "\<exists>appended.
     fitness_sharing_elimination (sharedFitness_excluding far_apart)
         (mk_store [1, 100, 50] [2] [0, 1] 0) 0 1 2 1 1
       = (Inr ([0, 2, 1] ! 0 # appended), mk_store [1, 100, 50] [2] [0, 1] 0)
     \<and> int (length ([0, 2, 1] ! 0 # appended)) = 2 + 1
     \<and> int (length appended) = 2
     \<and> [0, 2, 1] ! 0 \<in> set (lists (mk_store [1, 100, 50] [2] [0, 1] 0) 1)
                          \<union> set (lists (mk_store [1, 100, 50] [2] [0, 1] 0) 0)
     \<and> (\<forall>r \<in> set (lists (mk_store [1, 100, 50] [2] [0, 1] 0) 1)
               \<union> set (lists (mk_store [1, 100, 50] [2] [0, 1] 0) 0).
            fitness_of (mk_store [1, 100, 50] [2] [0, 1] 0) ([0, 2, 1] ! 0)
              \<le> fitness_of (mk_store [1, 100, 50] [2] [0, 1] 0) r)
     \<and> set appended \<subseteq> set (lists (mk_store [1, 100, 50] [2] [0, 1] 0) 1)
                         \<union> set (lists (mk_store [1, 100, 50] [2] [0, 1] 0) 0)"
proof (rule fitness_sharing_elimination_length)
  show "(0::int) \<le> 2" by simp
  show "lists (mk_store [1, 100, 50] [2] [0, 1] 0) 1 @ lists (mk_store [1, 100, 50] [2] [0, 1] 0) 0
          \<noteq> []"
    by (simp add: lists_mk_store)
  show "list_all (has_fitness (mk_store [1, 100, 50] [2] [0, 1] 0))
          (lists (mk_store [1, 100, 50] [2] [0, 1] 0) 1 @ lists (mk_store [1, 100, 50] [2] [0, 1] 0) 0)"
    by (simp add: lists_mk_store has_fitness_mk_store)
  show "[0, 2, 1] = sort_key (fitness_of (mk_store [1, 100, 50] [2] [0, 1] 0))
          (lists (mk_store [1, 100, 50] [2] [0, 1] 0) 1 @ lists (mk_store [1, 100, 50] [2] [0, 1] 0) 0)"
    by (simp add: lists_mk_store fitness_of_mk_store)
  show "\<exists>fitnesses.
          sharedFitness_excluding far_apart (mk_store [1, 100, 50] [2] [0, 1] 0) [0, 2, 1]
            survivors 1 1 = Inr fitnesses
          \<and> fitnesses \<noteq> [] \<and> length fitnesses \<le> length [0, 2, 1 :: nat]" for survivors
    using sharedFitness_excluding_aligned [of "mk_store [1, 100, 50] [2] [0, 1] 0" "[0, 2, 1]"
        far_apart survivors 1 1]
    by (auto simp: has_fitness_mk_store)
qed






subsection \<open>Tournament elimination\<close>

lemma has_fitness_rng_update: "has_fitness (s\<lparr>rng := g\<rparr>) = has_fitness s"
  by (simp add: has_fitness_def fun_eq_iff)

lemma fitness_of_rng_update: "fitness_of (s\<lparr>rng := g\<rparr>) = fitness_of s"
  by (simp add: fitness_of_def fun_eq_iff)

lemma set_sample_with_replacement:
  "pool \<noteq> [] \<Longrightarrow> set (sample_with_replacement pool k g) \<subseteq> set pool"
  by (auto simp: sample_with_replacement_def)

lemma length_sample_with_replacement: "length (sample_with_replacement pool k g) = k"
  by (simp add: sample_with_replacement_def)

lemma k_tournament_selection_ok:
  assumes "1 \<le> k" and "pool \<noteq> []" and "list_all (has_fitness s) pool"
  shows "\<exists>w. k_tournament_selection s pool k = (Inr w, s\<lparr>rng := (\<lambda>i. rng s (i + nat k))\<rparr>)
           \<and> w \<in> set (sample_with_replacement pool (nat k) (rng s))
           \<and> (\<forall>x \<in> set (sample_with_replacement pool (nat k) (rng s)).
                 fitness_of s w \<le> fitness_of s x)"
proof -
  let ?sel = "sample_with_replacement pool (nat k) (rng s)"
  let ?i = "argmin (map (fitness_of s) ?sel)"
  have sub: "set ?sel \<subseteq> set pool"
    using assms(2) by (rule set_sample_with_replacement)
  with assms(3) have fit: "list_all (has_fitness s) ?sel"
    by (auto simp: list_all_iff)
  have ne: "?sel \<noteq> []"
    using assms(1) length_sample_with_replacement [of pool "nat k" "rng s"] by auto
  then have i: "?i < length ?sel"
    using argmin_less [of "map (fitness_of s) ?sel"] by simp
  have min: "fitness_of s (?sel ! ?i) \<le> fitness_of s x" if "x \<in> set ?sel" for x
  proof -
    from that obtain m where m: "m < length ?sel" "x = ?sel ! m"
      by (auto simp: in_set_conv_nth)
    with argmin_le [of m "map (fitness_of s) ?sel"] i show ?thesis by simp
  qed
  from assms(1,2) fit have "k_tournament_selection s pool k
      = (Inr (?sel ! ?i), s\<lparr>rng := (\<lambda>i. rng s (i + nat k))\<rparr>)"
    by (simp add: k_tournament_selection_def Let_def)
  with i min show ?thesis by auto
qed

lemma k_tournament_selection_frame:
  "lists (snd (k_tournament_selection s pool k)) = lists s
     \<and> objs (snd (k_tournament_selection s pool k)) = objs s"
  by (simp add: k_tournament_selection_def Let_def)

lemma tournaments_frame:
  "lists (snd (tournaments s combined k n)) = lists s
     \<and> objs (snd (tournaments s combined k n)) = objs s"
proof (induction n arbitrary: s)
  case 0
  show ?case by simp
next
  case (Suc n)
  obtain r s1 where one: "k_tournament_selection s combined k = (r, s1)"
    by (cases "k_tournament_selection s combined k")
  with k_tournament_selection_frame [of s combined k]
  have s1: "lists s1 = lists s" "objs s1 = objs s" by simp_all
  show ?case
  proof (cases r)
    case (Inl e)
    with one s1 show ?thesis by simp
  next
    case (Inr w)
    obtain r2 s2 where rest: "tournaments s1 combined k n = (r2, s2)"
      by (cases "tournaments s1 combined k n")
    with Suc.IH [of s1] s1 have "lists s2 = lists s" "objs s2 = objs s" by simp_all
    with one Inr rest show ?thesis by (cases r2) simp_all
  qed
qed

lemma tournaments_ok:
  assumes "1 \<le> k" and "pool \<noteq> []"
  shows "list_all (has_fitness s) pool \<Longrightarrow>
           \<exists>ws s'. tournaments s pool k n = (Inr ws, s') \<and> length ws = n \<and> set ws \<subseteq> set pool"
proof (induction n arbitrary: s)
  case 0
  show ?case by simp
next
  case (Suc n)
  let ?s1 = "s\<lparr>rng := (\<lambda>i. rng s (i + nat k))\<rparr>"
  from k_tournament_selection_ok [OF assms Suc.prems] obtain w where
    one: "k_tournament_selection s pool k = (Inr w, ?s1)"
    and w: "w \<in> set (sample_with_replacement pool (nat k) (rng s))"
    by blast
  from w set_sample_with_replacement [OF assms(2)] have w': "w \<in> set pool" by blast
  from Suc.prems have "list_all (has_fitness ?s1) pool"
    by (simp add: has_fitness_rng_update)
  from Suc.IH [OF this] obtain ws s' where
    "tournaments ?s1 pool k n = (Inr ws, s')" "length ws = n" "set ws \<subseteq> set pool"
    by blast
  with one w' show ?case by simp
qed

lemma sort_key_head_min:
  assumes "sort_key f xs = b # rest" and "x \<in> set xs"
  shows "f b \<le> f x"
proof -
  have "sorted (map f (b # rest))"
    using sorted_sort_key [of f xs] assms(1) by simp
  moreover have "x \<in> set (b # rest)"
    using assms set_sort [of f xs] by simp
  ultimately show ?thesis by auto
qed

text \<open>
  C7. For \<open>lambda \<ge> 1\<close>, \<open>k \<ge> 1\<close> and a non-empty combined pool whose individuals all have
  a fitness, \<open>k_tournament_elimination\<close> returns, for every random source, a list of exactly
  \<open>lambda\<close> individuals whose first element is a pool member of globally minimal fitness and
  whose every element is a member of \<open>population\<close> or \<open>offspring\<close> (nothing says they are
  distinct).
\<close>

theorem k_tournament_elimination_result:
  assumes "1 \<le> lambda" and "1 \<le> k"
    and "lists s population @ lists s offspring \<noteq> []"
    and "list_all (has_fitness s) (lists s population @ lists s offspring)"
  shows "\<exists>res s'. k_tournament_elimination s offspring population lambda k = (Inr res, s')
           \<and> int (length res) = lambda
           \<and> res ! 0 \<in> set (lists s population) \<union> set (lists s offspring)
           \<and> (\<forall>r \<in> set (lists s population) \<union> set (lists s offspring).
                 fitness_of s (res ! 0) \<le> fitness_of s r)
           \<and> set res \<subseteq> set (lists s population) \<union> set (lists s offspring)"
proof -
  let ?pool = "lists s population @ lists s offspring"
  let ?c = "sort_key (fitness_of s) ?pool"
  have "?c \<noteq> []"
    using assms(3) by (metis length_0_conv length_sort)
  then obtain best rest where c: "?c = best # rest"
    by (cases ?c) simp_all
  have setc: "set ?c = set ?pool" by simp
  have fit: "list_all (has_fitness s) ?c"
    using assms(4) by (simp add: list_all_iff)
  have best: "best \<in> set ?pool"
    using setc c by (metis list.set_intros(1))
  have min: "fitness_of s best \<le> fitness_of s r" if "r \<in> set ?pool" for r
    using c that by (rule sort_key_head_min)
  from tournaments_ok [OF assms(2) \<open>?c \<noteq> []\<close> fit, of "nat (lambda - 1)"]
  obtain ws s' where run: "tournaments s ?c k (nat (lambda - 1)) = (Inr ws, s')"
    and len: "length ws = nat (lambda - 1)" and sub: "set ws \<subseteq> set ?c"
    by blast
  have "k_tournament_elimination s offspring population lambda k = (Inr (best # ws), s')"
    using assms(4) c run
    by (simp add: k_tournament_elimination_def sorted_fitness_Inr del: list_all_append)
  moreover have "int (length (best # ws)) = lambda"
    using len assms(1) by simp
  moreover have "set (best # ws) \<subseteq> set ?pool"
    using sub best setc by auto
  ultimately show ?thesis
    using best min by (intro exI [of _ "best # ws"] exI [of _ s']) auto
qed

theorem k_tournament_elimination_result_witness:
  "\<exists>res s'. k_tournament_elimination (mk_store [5, 3, 8, 1, 9] [3, 4] [0, 1, 2] 2) 0 1 3 2
               = (Inr res, s')
      \<and> int (length res) = 3
      \<and> res ! 0 \<in> {0, 1, 2} \<union> {3, 4}
      \<and> (\<forall>r \<in> {0, 1, 2} \<union> {3, 4}.
            fitness_of (mk_store [5, 3, 8, 1, 9] [3, 4] [0, 1, 2] 2) (res ! 0)
              \<le> fitness_of (mk_store [5, 3, 8, 1, 9] [3, 4] [0, 1, 2] 2) r)
      \<and> set res \<subseteq> {0, 1, 2} \<union> {3, 4}"
  using k_tournament_elimination_result [where lambda = 3 and k = 2
      and s = "mk_store [5, 3, 8, 1, 9] [3, 4] [0, 1, 2] 2" and population = 1 and offspring = 0]
  by (simp add: has_fitness_mk_store lists_mk_store)

lemma distinct_positions_cover:
  assumes "distinct (map (\<lambda>i. g i mod n) [0..<n])" and "0 < n"
  shows "set (map (\<lambda>i. g i mod n) [0..<n]) = {..<n}"
proof -
  let ?P = "map (\<lambda>i. g i mod n) [0..<n]"
  have "set ?P \<subseteq> {..<n}" using assms(2) by auto
  moreover have "card (set ?P) = card {..<n}"
    using distinct_card [OF assms(1)] by simp
  ultimately show ?thesis
    by (intro card_subset_eq) simp_all
qed

text \<open>
  C8 (as amended). For every random source and every \<open>k \<ge> 1\<close>, the size of the pool
  included, a tournament returns a sampled individual whose fitness is minimal among the
  \<open>k\<close> individuals it sampled. The winner has globally minimal fitness exactly when the
  sample contains a pool member of globally minimal fitness; that is so when \<open>k\<close> equals the
  size of the pool and the \<open>k\<close> draws hit \<open>k\<close> different positions, and it is not so for
  every random source: sampling is with replacement.
\<close>

theorem k_tournament_selection_winner:
  assumes "1 \<le> k" and "pool \<noteq> []" and "list_all (has_fitness s) pool"
  shows "\<exists>w. fst (k_tournament_selection s pool k) = Inr w
           \<and> w \<in> set (sample_with_replacement pool (nat k) (rng s))
           \<and> (\<forall>x \<in> set (sample_with_replacement pool (nat k) (rng s)).
                 fitness_of s w \<le> fitness_of s x)
           \<and> ((\<forall>r \<in> set pool. fitness_of s w \<le> fitness_of s r) \<longleftrightarrow>
                (\<exists>m \<in> set (sample_with_replacement pool (nat k) (rng s)).
                    \<forall>r \<in> set pool. fitness_of s m \<le> fitness_of s r))
           \<and> (k = int (length pool)
                \<and> distinct (map (\<lambda>i. rng s i mod length pool) [0..<length pool])
              \<longrightarrow> (\<forall>r \<in> set pool. fitness_of s w \<le> fitness_of s r))"
proof -
  let ?n = "length pool"
  let ?sel = "sample_with_replacement pool (nat k) (rng s)"
  from k_tournament_selection_ok [OF assms] obtain w where
    run: "fst (k_tournament_selection s pool k) = Inr w"
    and w: "w \<in> set ?sel"
    and min: "\<forall>x \<in> set ?sel. fitness_of s w \<le> fitness_of s x"
    by auto
  have iff: "(\<forall>r \<in> set pool. fitness_of s w \<le> fitness_of s r) \<longleftrightarrow>
               (\<exists>m \<in> set ?sel. \<forall>r \<in> set pool. fitness_of s m \<le> fitness_of s r)"
  proof
    assume "\<forall>r \<in> set pool. fitness_of s w \<le> fitness_of s r"
    with w show "\<exists>m \<in> set ?sel. \<forall>r \<in> set pool. fitness_of s m \<le> fitness_of s r"
      by blast
  next
    assume "\<exists>m \<in> set ?sel. \<forall>r \<in> set pool. fitness_of s m \<le> fitness_of s r"
    then obtain m where m: "m \<in> set ?sel" "\<forall>r \<in> set pool. fitness_of s m \<le> fitness_of s r"
      by blast
    show "\<forall>r \<in> set pool. fitness_of s w \<le> fitness_of s r"
    proof
      fix r assume "r \<in> set pool"
      with m min have "fitness_of s w \<le> fitness_of s m" "fitness_of s m \<le> fitness_of s r"
        by simp_all
      then show "fitness_of s w \<le> fitness_of s r" by simp
    qed
  qed
  have full: "\<forall>r \<in> set pool. fitness_of s w \<le> fitness_of s r"
    if k: "k = int ?n" and d: "distinct (map (\<lambda>i. rng s i mod ?n) [0..<?n])"
  proof -
    have n: "0 < ?n" using assms(2) by simp
    have "?sel = map (\<lambda>p. pool ! p) (map (\<lambda>i. rng s i mod ?n) [0..<?n])"
      by (simp add: sample_with_replacement_def k)
    then have "set ?sel = (\<lambda>p. pool ! p) ` set (map (\<lambda>i. rng s i mod ?n) [0..<?n])"
      by (simp only: set_map)
    also have "\<dots> = (\<lambda>p. pool ! p) ` {..<?n}"
      by (simp only: distinct_positions_cover [OF d n])
    also have "\<dots> = set pool"
      by (auto simp: set_conv_nth)
    finally have "set ?sel = set pool" .
    with min show ?thesis by simp
  qed
  from run w min iff full show ?thesis
    by (intro exI [of _ w]) blast
qed

theorem k_tournament_selection_winner_witness:
  "\<exists>w. fst (k_tournament_selection ((mk_store [2, 1] [] [0, 1] 0)\<lparr>rng := (\<lambda>i. i)\<rparr>) [0, 1] 2)
          = Inr w
     \<and> w \<in> set (sample_with_replacement [0, 1] (nat 2)
                   (rng ((mk_store [2, 1] [] [0, 1] 0)\<lparr>rng := (\<lambda>i. i)\<rparr>)))
     \<and> (\<forall>x \<in> set (sample_with_replacement [0, 1] (nat 2)
                      (rng ((mk_store [2, 1] [] [0, 1] 0)\<lparr>rng := (\<lambda>i. i)\<rparr>))).
            fitness_of ((mk_store [2, 1] [] [0, 1] 0)\<lparr>rng := (\<lambda>i. i)\<rparr>) w
              \<le> fitness_of ((mk_store [2, 1] [] [0, 1] 0)\<lparr>rng := (\<lambda>i. i)\<rparr>) x)
     \<and> ((\<forall>r \<in> set [0, 1]. fitness_of ((mk_store [2, 1] [] [0, 1] 0)\<lparr>rng := (\<lambda>i. i)\<rparr>) w
                              \<le> fitness_of ((mk_store [2, 1] [] [0, 1] 0)\<lparr>rng := (\<lambda>i. i)\<rparr>) r) \<longleftrightarrow>
          (\<exists>m \<in> set (sample_with_replacement [0, 1] (nat 2)
                       (rng ((mk_store [2, 1] [] [0, 1] 0)\<lparr>rng := (\<lambda>i. i)\<rparr>))).
              \<forall>r \<in> set [0, 1]. fitness_of ((mk_store [2, 1] [] [0, 1] 0)\<lparr>rng := (\<lambda>i. i)\<rparr>) m
                                 \<le> fitness_of ((mk_store [2, 1] [] [0, 1] 0)\<lparr>rng := (\<lambda>i. i)\<rparr>) r))
     \<and> (2 = int (length [0, 1 :: nat])
          \<and> distinct (map (\<lambda>i. rng ((mk_store [2, 1] [] [0, 1] 0)\<lparr>rng := (\<lambda>i. i)\<rparr>) i
                                 mod length [0, 1 :: nat]) [0..<length [0, 1 :: nat]])
        \<longrightarrow> (\<forall>r \<in> set [0, 1]. fitness_of ((mk_store [2, 1] [] [0, 1] 0)\<lparr>rng := (\<lambda>i. i)\<rparr>) w
                                 \<le> fitness_of ((mk_store [2, 1] [] [0, 1] 0)\<lparr>rng := (\<lambda>i. i)\<rparr>) r))"
proof (rule k_tournament_selection_winner)
  show "(1::int) \<le> 2" by simp
  show "[0, 1 :: nat] \<noteq> []" by simp
  show "list_all (has_fitness ((mk_store [2, 1] [] [0, 1] 0)\<lparr>rng := (\<lambda>i. i)\<rparr>)) [0, 1]"
    by (simp add: has_fitness_rng_update has_fitness_mk_store)
qed

text \<open>
  The claim as stated fails: with a pool of two, \<open>k = 2\<close> and a random source that draws
  position 1 twice, the tournament run by \<open>k_tournament_elimination\<close> returns the individual
  of fitness 2, not the one of fitness 1.
\<close>

theorem k_tournament_repeated_draw_counterexample:
  "int (length (lists (mk_store [1, 2] [] [0, 1] 1) 1 @ lists (mk_store [1, 2] [] [0, 1] 1) 0)) = 2
   \<and> fst (k_tournament_elimination (mk_store [1, 2] [] [0, 1] 1) 0 1 2 2) = Inr [0, 1]
   \<and> fst (k_tournament_selection (mk_store [1, 2] [] [0, 1] 1) [0, 1] 2) = Inr 1
   \<and> fitness_of (mk_store [1, 2] [] [0, 1] 1) 0 < fitness_of (mk_store [1, 2] [] [0, 1] 1) 1"
  by (simp add: k_tournament_elimination_def k_tournament_selection_def
      sample_with_replacement_def sorted_fitness_def Let_def mk_store_def has_fitness_def
      fitness_of_def numeral_2_eq_2)

subsection \<open>What the strategies leave untouched\<close>

text \<open>
  C9. For every input, and whether they return or raise, the four strategies leave every
  list object of the store as it was, the caller's \<open>population\<close> and \<open>offspring\<close> among them.
  The objects are untouched too, except that \<open>lambda_plus_mu_elimination\<close> may change the
  \<open>shared_fitness\<close> of individuals (never their fitness or genotype); the tournament
  strategy only advances the random source.
\<close>

theorem eliminations_keep_lists:
  "lists (snd (fitness_sharing_elimination calc_shared_fitnesses s offspring population lambda alpha sigma))
      = lists s
   \<and> objs (snd (fitness_sharing_elimination calc_shared_fitnesses s offspring population lambda alpha sigma))
      = objs s
   \<and> lists (snd (lambda_plus_mu_elimination distance flag s offspring population lambda alpha sigma))
      = lists s
   \<and> (\<forall>r. fitness (objs (snd (lambda_plus_mu_elimination distance flag s offspring population
                                 lambda alpha sigma)) r) = fitness (objs s r)
         \<and> genotype (objs (snd (lambda_plus_mu_elimination distance flag s offspring population
                                 lambda alpha sigma)) r) = genotype (objs s r))
   \<and> lists (snd (replace_worst s offspring population lambda)) = lists s
   \<and> objs (snd (replace_worst s offspring population lambda)) = objs s
   \<and> lists (snd (k_tournament_elimination s offspring population lambda k)) = lists s
   \<and> objs (snd (k_tournament_elimination s offspring population lambda k)) = objs s"
proof -
  have fse: "snd (fitness_sharing_elimination calc_shared_fitnesses s offspring population lambda alpha sigma) = s"
    by (simp add: fitness_sharing_elimination_def split: sum.splits list.splits)
  have rw: "snd (replace_worst s offspring population lambda) = s"
    by (simp add: replace_worst_def Let_def split: sum.splits)
  let ?lpm = "lambda_plus_mu_elimination distance flag s offspring population lambda alpha sigma"
  have lpm: "lists (snd ?lpm) = lists s
      \<and> (\<forall>r. fitness (objs (snd ?lpm) r) = fitness (objs s r)
            \<and> genotype (objs (snd ?lpm) r) = genotype (objs s r))"
  proof (cases "sorted_fitness s (lists s population @ lists s offspring)")
    case (Inl e)
    then show ?thesis by (simp add: lambda_plus_mu_elimination_def)
  next
    case (Inr sorted_all)
    show ?thesis
    proof (cases flag)
      case None
      with Inr show ?thesis by (simp add: lambda_plus_mu_elimination_def)
    next
      case (Some b)
      show ?thesis
      proof (cases b)
        case False
        with Inr Some show ?thesis by (simp add: lambda_plus_mu_elimination_def)
      next
        case True
        let ?c = "slice_to sorted_all lambda"
        obtain e s' where loop:
          "shared_fitness_loop distance s ?c alpha sigma [1..<length ?c] = (e, s')"
          by (cases "shared_fitness_loop distance s ?c alpha sigma [1..<length ?c]")
        from shared_fitness_loop_frame [OF loop] Inr Some True loop show ?thesis
          by (cases e) (simp_all add: lambda_plus_mu_elimination_def Let_def)
      qed
    qed
  qed
  let ?kte = "k_tournament_elimination s offspring population lambda k"
  have kte: "lists (snd ?kte) = lists s \<and> objs (snd ?kte) = objs s"
  proof (cases "sorted_fitness s (lists s population @ lists s offspring)")
    case (Inl e)
    then show ?thesis by (simp add: k_tournament_elimination_def)
  next
    case (Inr combined)
    show ?thesis
    proof (cases combined)
      case Nil
      with Inr show ?thesis by (simp add: k_tournament_elimination_def)
    next
      case (Cons best rest)
      obtain r s' where run: "tournaments s combined k (nat (lambda - 1)) = (r, s')"
        by (cases "tournaments s combined k (nat (lambda - 1))")
      with tournaments_frame [of s combined k "nat (lambda - 1)"]
      have "lists s' = lists s" "objs s' = objs s" by simp_all
      with Inr Cons run show ?thesis
        by (cases r) (simp_all add: k_tournament_elimination_def)
    qed
  qed
  from fse rw lpm kte show ?thesis by simp
qed

theorem eliminations_keep_lists_witness:
  "lists (snd (lambda_plus_mu_elimination far_apart (Some True)
        (mk_store [5, 3, 8, 1, 9] [3, 4] [0, 1, 2] 0) 0 1 2 1 1)) 1 = [0, 1, 2]
   \<and> lists (snd (lambda_plus_mu_elimination far_apart (Some True)
        (mk_store [5, 3, 8, 1, 9] [3, 4] [0, 1, 2] 0) 0 1 2 1 1)) 0 = [3, 4]
   \<and> lists (snd (k_tournament_elimination
        (mk_store [5, 3, 8, 1, 9] [3, 4] [0, 1, 2] 0) 0 1 2 3)) 1 = [0, 1, 2]
   \<and> lists (snd (k_tournament_elimination
        (mk_store [5, 3, 8, 1, 9] [3, 4] [0, 1, 2] 0) 0 1 2 3)) 0 = [3, 4]"
  using eliminations_keep_lists [where distance = far_apart and flag = "Some True"
      and s = "mk_store [5, 3, 8, 1, 9] [3, 4] [0, 1, 2] 0" and population = 1 and offspring = 0
      and lambda = 2 and alpha = 1 and sigma = 1 and k = 3]
  by (simp add: lists_mk_store)

end
